theory Spec2Isabelle
  imports Complex_Main "HOL-Library.Multiset"
begin

section \<open>Data model\<close>

text \<open>
  The exceptions the three functions of \<^verbatim>\<open>utils.py\<close> can meet. \<open>ValueError\<close> and
  \<open>SyntaxError\<close> are the two that the aggregator catches around the literal parser;
  \<open>MemoryError\<close> and \<open>RecursionError\<close> are the other ones the parser documents.
\<close>

datatype error =
  KeyError | IndexError | TypeError | ValueError | SyntaxError
  | ZeroDivisionError | MemoryError | RecursionError

text \<open>
  The values a Python literal denotes. A genre is such a value: a string cell, or the
  first element of the list that a list-literal cell parses to. Numbers are read by their
  value, as Python's key equality does (\<open>1 == 1.0\<close>). Numbers are real numbers, and
  the functions below compute with them exactly; the rounding of Python's floats is added
  in the section on binary64 arithmetic.
\<close>

datatype pyval =
  PStr string
  | PBytes string
  | PNum real
  | PNone
  | PTuple "pyval list"
  | PList "pyval list"
  | PSet "pyval list"
  | PDict "(pyval \<times> pyval) list"

text \<open>Only hashable values can be dictionary keys; indexing a dictionary with another
  one raises \<open>TypeError\<close>.\<close>

fun hashable :: "pyval \<Rightarrow> bool" where
  "hashable (PStr s) = True"
| "hashable (PBytes s) = True"
| "hashable (PNum x) = True"
| "hashable PNone = True"
| "hashable (PTuple xs) = (\<forall>x \<in> set xs. hashable x)"
| "hashable (PList xs) = False"
| "hashable (PSet xs) = False"
| "hashable (PDict kvs) = False"

text \<open>
  A cell of the rating table: a string, a number, or a missing value (\<open>None\<close>/\<open>NaN\<close>,
  what \<open>pd.isna\<close> accepts). A row gives the cell under each column label; the table has
  its column labels, in order, and its rows, in order.
\<close>

datatype cell = Str string | Num real | Missing

type_synonym row = "string \<Rightarrow> cell"

record dataframe =
  columns :: "string list"
  rows :: "row list"

text \<open>
  \<open>[total, average, count]\<close> for one user and one genre, and the two levels of
  dictionaries. A dictionary is an association list in insertion order, since the two
  sorts of the module are stable and break ties by that order.
\<close>

type_synonym stats = "real \<times> real \<times> int"
type_synonym user_prefs = "(pyval \<times> stats) list"
type_synonym prefs = "(string \<times> user_prefs) list"

text \<open>\<open>d[k] = v\<close>: replace the value of an existing key in place, or append a new key.\<close>

fun setitem :: "'k \<Rightarrow> 'v \<Rightarrow> ('k \<times> 'v) list \<Rightarrow> ('k \<times> 'v) list" where
  "setitem k v [] = [(k, v)]"
| "setitem k v ((k', v') # d) = (if k' = k then (k', v) # d else (k', v') # setitem k v d)"

text \<open>The well-formed dictionaries: no key twice, at either level.\<close>

definition wf_prefs :: "prefs \<Rightarrow> bool" where
  "wf_prefs p = (distinct (map fst p) \<and> (\<forall>(u, up) \<in> set p. distinct (map fst up)))"

definition startswith :: "string \<Rightarrow> string \<Rightarrow> bool" where
  "startswith p s = (take (length p) s = p)"

definition endswith :: "string \<Rightarrow> string \<Rightarrow> bool" where
  "endswith p s = (length p \<le> length s \<and> drop (length s - length p) s = p)"

text \<open>\<open>xs[:n]\<close>; a negative \<open>n\<close> counts from the end.\<close>

definition py_take :: "int \<Rightarrow> 'a list \<Rightarrow> 'a list" where
  "py_take n xs = (if 0 \<le> n then take (nat n) xs else take (nat (int (length xs) + n)) xs)"

section \<open>calculate_genre_preferences\<close>

text \<open>
  \<open>ast.literal_eval\<close> belongs to Python's library, not to this module: it is a parameter
  of the model, a function from the text to the value it denotes or the exception raised.
\<close>

type_synonym literal_eval = "string \<Rightarrow> error + pyval"

text \<open>Lines 22 to 32: the genre a non-empty string cell stands for.\<close>

definition effective_genre :: "literal_eval \<Rightarrow> string \<Rightarrow> error + pyval" where
  "effective_genre le genre =
     (if startswith ''['' genre \<and> endswith '']'' genre then
        (case le genre of
           Inr (PList genres) \<Rightarrow>
             (case genres of [] \<Rightarrow> Inl IndexError | g # _ \<Rightarrow> Inr g)
         | Inr _ \<Rightarrow> Inr (PStr genre)
         | Inl e \<Rightarrow> if e = ValueError \<or> e = SyntaxError then Inr (PStr genre) else Inl e)
      else Inr (PStr genre))"

text \<open>Lines 44 to 46, on the list \<open>[total, average, count]\<close>.\<close>

definition update_stats :: "stats \<Rightarrow> real \<Rightarrow> error + stats" where
  "update_stats st rating =
     (case st of (tot, avg, cnt) \<Rightarrow>
        let tot' = tot + rating; cnt' = cnt + 1
        in if cnt' = 0 then Inl ZeroDivisionError
           else Inr (tot', tot' / of_int cnt', cnt'))"

text \<open>
  Lines 43 to 46 for one user and one rating. Both defaultdicts create the entry that is
  missing; an unhashable genre fails at the inner lookup.
\<close>

definition rate :: "string \<Rightarrow> pyval \<Rightarrow> real \<Rightarrow> prefs \<Rightarrow> error + prefs" where
  "rate user_col genre rating p =
     (if \<not> hashable genre then Inl TypeError
      else
        let up = (case map_of p user_col of None \<Rightarrow> [] | Some up \<Rightarrow> up);
            current_stats = (case map_of up genre of None \<Rightarrow> (0, 0, 0) | Some st \<Rightarrow> st)
        in case update_stats current_stats rating of
             Inl e \<Rightarrow> Inl e
           | Inr st \<Rightarrow> Inr (setitem user_col (setitem genre st up) p))"

text \<open>The inner loop, lines 35 to 46. Adding a string to the total raises \<open>TypeError\<close>.\<close>

fun process_users :: "string list \<Rightarrow> row \<Rightarrow> pyval \<Rightarrow> prefs \<Rightarrow> error + prefs" where
  "process_users [] r genre p = Inr p"
| "process_users (user_col # cols) r genre p =
     (case r user_col of
        Missing \<Rightarrow> process_users cols r genre p
      | Str s \<Rightarrow> Inl TypeError
      | Num rating \<Rightarrow>
          (case rate user_col genre rating p of
             Inl e \<Rightarrow> Inl e
           | Inr p' \<Rightarrow> process_users cols r genre p'))"

definition user_columns :: "string list \<Rightarrow> string list" where
  "user_columns cols = filter (startswith ''user_'') cols"

text \<open>The body of the outer loop, lines 17 to 46.\<close>

definition process_row :: "literal_eval \<Rightarrow> string list \<Rightarrow> row \<Rightarrow> prefs \<Rightarrow> error + prefs" where
  "process_row le cols r p =
     (if ''genre'' \<notin> set cols then Inl KeyError
      else case r ''genre'' of
        Str genre \<Rightarrow>
          if genre = [] then Inr p
          else (case effective_genre le genre of
                  Inl e \<Rightarrow> Inl e
                | Inr g \<Rightarrow> process_users (user_columns cols) r g p)
      | _ \<Rightarrow> Inr p)"

fun process_rows :: "literal_eval \<Rightarrow> string list \<Rightarrow> row list \<Rightarrow> prefs \<Rightarrow> error + prefs" where
  "process_rows le cols [] p = Inr p"
| "process_rows le cols (r # rs) p =
     (case process_row le cols r p of
        Inl e \<Rightarrow> Inl e
      | Inr p' \<Rightarrow> process_rows le cols rs p')"

definition calculate_genre_preferences :: "literal_eval \<Rightarrow> dataframe \<Rightarrow> error + prefs" where
  "calculate_genre_preferences le songs_df = process_rows le (columns songs_df) (rows songs_df) []"

section \<open>find_similar_users\<close>

text \<open>
  Lines 66 to 69. The order in which Python lists a set is not fixed; the model lists the
  genres in the order of their first occurrence. \<open>dot_reorder\<close> and
  \<open>norm_vec_reorder\<close> below show that the similarity does not depend on this choice.
\<close>

definition all_genres :: "prefs \<Rightarrow> pyval list" where
  "all_genres p = remdups (concat (map (\<lambda>(user, up). map fst up) p))"

text \<open>Lines 74 to 78: the average where the user has the genre, 0 elsewhere.\<close>

definition avg_rating :: "user_prefs \<Rightarrow> pyval \<Rightarrow> real" where
  "avg_rating up genre = (case map_of up genre of Some (tot, avg, cnt) \<Rightarrow> avg | None \<Rightarrow> 0)"

definition user_vector :: "pyval list \<Rightarrow> user_prefs \<Rightarrow> real list" where
  "user_vector genres up = map (avg_rating up) genres"

definition dot :: "real list \<Rightarrow> real list \<Rightarrow> real" where
  "dot xs ys = sum_list (map (\<lambda>(x, y). x * y) (zip xs ys))"

definition norm_vec :: "real list \<Rightarrow> real" where
  "norm_vec xs = sqrt (sum_list (map (\<lambda>x. x * x) xs))"

text \<open>Lines 96 to 104.\<close>

definition cosine_similarity :: "real list \<Rightarrow> real list \<Rightarrow> real" where
  "cosine_similarity target_vector user_vec =
     (let dot_product = dot target_vector user_vec;
          norm_target = norm_vec target_vector;
          norm_user = norm_vec user_vec
      in if norm_target = 0 \<or> norm_user = 0 then 0
         else dot_product / (norm_target * norm_user))"

text \<open>Lines 89 to 106: the similarity of every user but the target, in dictionary order.\<close>

definition similarities :: "string \<Rightarrow> real list \<Rightarrow> (string \<times> real list) list \<Rightarrow> (string \<times> real) list" where
  "similarities target_user target_vector user_vectors =
     map (\<lambda>(user, v). (user, cosine_similarity target_vector v))
       (filter (\<lambda>(user, v). user \<noteq> target_user) user_vectors)"

text \<open>\<open>sorted(items, key, reverse=True)\<close>: descending in the key, stable.\<close>

definition sorted_desc :: "('a \<Rightarrow> real) \<Rightarrow> 'a list \<Rightarrow> 'a list" where
  "sorted_desc key xs = sort_key (\<lambda>x. - key x) xs"

definition find_similar_users :: "string \<Rightarrow> prefs \<Rightarrow> int \<Rightarrow> string list" where
  "find_similar_users target_user p n =
     (if map_of p target_user = None then []
      else
        let genres = all_genres p;
            user_vectors = map (\<lambda>(user, up). (user, user_vector genres up)) p
        in case map_of user_vectors target_user of
             None \<Rightarrow> []
           | Some target_vector \<Rightarrow>
               map fst (py_take n (sorted_desc snd (similarities target_user target_vector user_vectors))))"

section \<open>find_next_best_genre\<close>

text \<open>\<open>xs.index(x)\<close>: the first position of \<open>x\<close>, \<open>ValueError\<close> when there is none.\<close>

fun index_of :: "'a list \<Rightarrow> 'a \<Rightarrow> error + nat" where
  "index_of [] x = Inl ValueError"
| "index_of (y # ys) x =
     (if y = x then Inr 0
      else case index_of ys x of Inl e \<Rightarrow> Inl e | Inr i \<Rightarrow> Inr (Suc i))"

text \<open>Line 148.\<close>

definition similarity_weight :: "string list \<Rightarrow> string \<Rightarrow> error + real" where
  "similarity_weight similar_users user =
     (case index_of similar_users user of
        Inl e \<Rightarrow> Inl e
      | Inr i \<Rightarrow>
          if length similar_users = 0 then Inl ZeroDivisionError
          else Inr (1 - real i / real (length similar_users)))"

text \<open>Line 149 on the \<open>defaultdict(float)\<close>.\<close>

definition add_score :: "pyval \<Rightarrow> real \<Rightarrow> (pyval \<times> real) list \<Rightarrow> (pyval \<times> real) list" where
  "add_score genre x sc = setitem genre ((case map_of sc genre of None \<Rightarrow> 0 | Some s \<Rightarrow> s) + x) sc"

text \<open>The inner loop, lines 141 to 149, over the items of one similar user.\<close>

fun score_genres ::
  "string list \<Rightarrow> string \<Rightarrow> pyval set \<Rightarrow> user_prefs \<Rightarrow> (pyval \<times> real) list \<Rightarrow> error + (pyval \<times> real) list"
where
  "score_genres su user tops [] sc = Inr sc"
| "score_genres su user tops ((genre, (tot, avg, cnt)) # items) sc =
     (if genre \<in> tops then score_genres su user tops items sc
      else case similarity_weight su user of
             Inl e \<Rightarrow> Inl e
           | Inr w \<Rightarrow> score_genres su user tops items (add_score genre (avg * w) sc))"

text \<open>The outer loop, lines 136 to 149: \<open>su\<close> is the whole list, the fourth argument what
  is left of it.\<close>

fun score_users ::
  "prefs \<Rightarrow> string list \<Rightarrow> pyval set \<Rightarrow> string list \<Rightarrow> (pyval \<times> real) list \<Rightarrow> error + (pyval \<times> real) list"
where
  "score_users p su tops [] sc = Inr sc"
| "score_users p su tops (user # users) sc =
     (case map_of p user of
        None \<Rightarrow> score_users p su tops users sc
      | Some up \<Rightarrow>
          (case score_genres su user tops up sc of
             Inl e \<Rightarrow> Inl e
           | Inr sc' \<Rightarrow> score_users p su tops users sc'))"

text \<open>Lines 129 to 131.\<close>

definition target_top_genres :: "user_prefs \<Rightarrow> int \<Rightarrow> pyval list" where
  "target_top_genres target_prefs k =
     map fst (py_take k (sorted_desc (\<lambda>(genre, (tot, avg, cnt)). avg) target_prefs))"

definition find_next_best_genre ::
  "string \<Rightarrow> prefs \<Rightarrow> string list \<Rightarrow> int \<Rightarrow> error + pyval option"
where
  "find_next_best_genre target_user p similar_users k =
     (if similar_users = [] then Inr None
      else case map_of p target_user of
        None \<Rightarrow> Inr None
      | Some target_prefs \<Rightarrow>
          (case score_users p similar_users (set (target_top_genres target_prefs k)) similar_users [] of
             Inl e \<Rightarrow> Inl e
           | Inr genre_scores \<Rightarrow>
               if genre_scores = [] then Inr None
               else (case sorted_desc snd genre_scores of
                       [] \<Rightarrow> Inr None
                     | (genre, s) # _ \<Rightarrow> Inr (Some genre))))"
section \<open>The same code in binary64 arithmetic\<close>

text \<open>
  The definitions above compute in exact real arithmetic. Python's floats are IEEE
  binary64 numbers: every operation returns the exact result rounded to the nearest
  number with a 53-bit significand, ties going to the even significand.
  \<open>fl\<close> is that rounding, with the fixed spacing \<open>2 ^ -1074\<close> of the subnormal
  range at the bottom. Overflow to infinity is not modelled: \<open>fl\<close> is the binary64
  result wherever that result is finite.
\<close>

definition round_half_even :: "real \<Rightarrow> int" where
  "round_half_even q =
     (let f = \<lfloor>q\<rfloor>; r = q - of_int f
      in if r < 1 / 2 then f else if 1 / 2 < r then f + 1 else if even f then f else f + 1)"

definition fl :: "real \<Rightarrow> real" where
  "fl x =
     (if x = 0 then 0
      else
        let e = max (\<lfloor>log 2 \<bar>x\<bar>\<rfloor> - 52) (- 1074);
            u = 2 powr (of_int e)
        in of_int (round_half_even (x / u)) * u)"

text \<open>
  The arithmetic a run uses: the four operations of lines 44 to 46 and 96 to 104.
  \<open>exact\<close> is the arithmetic of the definitions above, \<open>float64\<close> the one of the
  program.
\<close>

record arith =
  ar_add :: "real \<Rightarrow> real \<Rightarrow> real"
  ar_mul :: "real \<Rightarrow> real \<Rightarrow> real"
  ar_div :: "real \<Rightarrow> real \<Rightarrow> real"
  ar_sqrt :: "real \<Rightarrow> real"

definition exact :: arith where
  "exact = \<lparr> ar_add = (+), ar_mul = (*), ar_div = (/), ar_sqrt = sqrt \<rparr>"

definition float64 :: arith where
  "float64 =
     \<lparr> ar_add = (\<lambda>x y. fl (x + y)), ar_mul = (\<lambda>x y. fl (x * y)),
       ar_div = (\<lambda>x y. fl (x / y)), ar_sqrt = (\<lambda>x. fl (sqrt x)) \<rparr>"

text \<open>
  The aggregator again, line for line as above, with the addition of line 44 and the
  division of line 46 taken from the arithmetic. \<open>calculate_genre_preferences_in_exact\<close>
  below shows that with \<open>exact\<close> it is the function defined above.
\<close>

definition update_stats_in :: "arith \<Rightarrow> stats \<Rightarrow> real \<Rightarrow> error + stats" where
  "update_stats_in ar st rating =
     (case st of (tot, avg, cnt) \<Rightarrow>
        let tot' = ar_add ar tot rating; cnt' = cnt + 1
        in if cnt' = 0 then Inl ZeroDivisionError
           else Inr (tot', ar_div ar tot' (of_int cnt'), cnt'))"

definition rate_in :: "arith \<Rightarrow> string \<Rightarrow> pyval \<Rightarrow> real \<Rightarrow> prefs \<Rightarrow> error + prefs" where
  "rate_in ar user_col genre rating p =
     (if \<not> hashable genre then Inl TypeError
      else
        let up = (case map_of p user_col of None \<Rightarrow> [] | Some up \<Rightarrow> up);
            current_stats = (case map_of up genre of None \<Rightarrow> (0, 0, 0) | Some st \<Rightarrow> st)
        in case update_stats_in ar current_stats rating of
             Inl e \<Rightarrow> Inl e
           | Inr st \<Rightarrow> Inr (setitem user_col (setitem genre st up) p))"

fun process_users_in :: "arith \<Rightarrow> string list \<Rightarrow> row \<Rightarrow> pyval \<Rightarrow> prefs \<Rightarrow> error + prefs" where
  "process_users_in ar [] r genre p = Inr p"
| "process_users_in ar (user_col # cols) r genre p =
     (case r user_col of
        Missing \<Rightarrow> process_users_in ar cols r genre p
      | Str s \<Rightarrow> Inl TypeError
      | Num rating \<Rightarrow>
          (case rate_in ar user_col genre rating p of
             Inl e \<Rightarrow> Inl e
           | Inr p' \<Rightarrow> process_users_in ar cols r genre p'))"

definition process_row_in ::
  "arith \<Rightarrow> literal_eval \<Rightarrow> string list \<Rightarrow> row \<Rightarrow> prefs \<Rightarrow> error + prefs" where
  "process_row_in ar le cols r p =
     (if ''genre'' \<notin> set cols then Inl KeyError
      else case r ''genre'' of
        Str genre \<Rightarrow>
          if genre = [] then Inr p
          else (case effective_genre le genre of
                  Inl e \<Rightarrow> Inl e
                | Inr g \<Rightarrow> process_users_in ar (user_columns cols) r g p)
      | _ \<Rightarrow> Inr p)"

fun process_rows_in ::
  "arith \<Rightarrow> literal_eval \<Rightarrow> string list \<Rightarrow> row list \<Rightarrow> prefs \<Rightarrow> error + prefs" where
  "process_rows_in ar le cols [] p = Inr p"
| "process_rows_in ar le cols (r # rs) p =
     (case process_row_in ar le cols r p of
        Inl e \<Rightarrow> Inl e
      | Inr p' \<Rightarrow> process_rows_in ar le cols rs p')"

definition calculate_genre_preferences_in ::
  "arith \<Rightarrow> literal_eval \<Rightarrow> dataframe \<Rightarrow> error + prefs" where
  "calculate_genre_preferences_in ar le songs_df =
     process_rows_in ar le (columns songs_df) (rows songs_df) []"






section \<open>What the claims speak of\<close>

text \<open>The statistics stored for a user and a genre, if any.\<close>

definition lookup :: "prefs \<Rightarrow> string \<Rightarrow> pyval \<Rightarrow> stats option" where
  "lookup p user genre = (case map_of p user of None \<Rightarrow> None | Some up \<Rightarrow> map_of up genre)"

text \<open>
  The ratings a table contributes to a pair of user and genre, in row order: the genre of
  a row that is not skipped, the ratings of a user in one row (one per user column of
  that label), and their concatenation over the rows whose genre is the given one.
\<close>

definition row_genre :: "literal_eval \<Rightarrow> row \<Rightarrow> pyval option" where
  "row_genre le r =
     (case r ''genre'' of
        Str s \<Rightarrow> if s = [] then None
                 else (case effective_genre le s of Inl e \<Rightarrow> None | Inr g \<Rightarrow> Some g)
      | _ \<Rightarrow> None)"

definition ratings_in :: "string list \<Rightarrow> row \<Rightarrow> string \<Rightarrow> real list" where
  "ratings_in ucols r user =
     concat (map (\<lambda>c. case r c of Num x \<Rightarrow> if c = user then [x] else [] | _ \<Rightarrow> []) ucols)"

definition contributions ::
  "literal_eval \<Rightarrow> string list \<Rightarrow> row list \<Rightarrow> string \<Rightarrow> pyval \<Rightarrow> real list" where
  "contributions le cols rs user genre =
     concat (map (\<lambda>r. if row_genre le r = Some genre then ratings_in (user_columns cols) r user else []) rs)"

text \<open>The statistics that a non-empty list of ratings amounts to.\<close>

definition stats_of :: "real list \<Rightarrow> stats option" where
  "stats_of xs =
     (if xs = [] then None
      else Some (sum_list xs, sum_list xs / real (length xs), int (length xs)))"

text \<open>
  The rows that the aggregator gets through without an exception: every rating cell is a
  number or missing, the genre is hashable where a rating is present, the genre column
  exists and the genre literal raises nothing that escapes.
\<close>

definition users_ok :: "string list \<Rightarrow> row \<Rightarrow> pyval \<Rightarrow> bool" where
  "users_ok ucols r g =
     (\<forall>c \<in> set ucols. case r c of Str s \<Rightarrow> False | Num x \<Rightarrow> hashable g | Missing \<Rightarrow> True)"

definition row_ok :: "literal_eval \<Rightarrow> string list \<Rightarrow> row \<Rightarrow> bool" where
  "row_ok le cols r =
     (''genre'' \<in> set cols \<and>
      (case r ''genre'' of
         Str s \<Rightarrow> s = [] \<or> (case effective_genre le s of
                               Inl e \<Rightarrow> False
                             | Inr g \<Rightarrow> users_ok (user_columns cols) r g)
       | _ \<Rightarrow> True))"

text \<open>
  The recommender in the words of its description. The weight of a listed user comes from
  the first position of the user in the list and the length of the list. A user
  contributes to a genre the average it stores for it times its weight, unless the genre
  is excluded or the user or the genre is missing. The score of a genre sums the
  contributions over the list, and a genre qualifies when it is not excluded and some
  listed user has it.
\<close>

definition first_index :: "'a list \<Rightarrow> 'a \<Rightarrow> nat" where
  "first_index xs x = length (takeWhile (\<lambda>y. y \<noteq> x) xs)"

definition position_weight :: "string list \<Rightarrow> string \<Rightarrow> real" where
  "position_weight similar_users user =
     1 - real (first_index similar_users user) / real (length similar_users)"







text \<open>
  The count stored for a user and a genre, and a dictionary with its totals and averages
  erased. \<open>rate_shape\<close> is what lines 43 to 46 do to the erased dictionary: it shows that
  keys, counts and exceptions do not depend on the arithmetic.
\<close>

definition map_values :: "('v \<Rightarrow> 'w) \<Rightarrow> ('k \<times> 'v) list \<Rightarrow> ('k \<times> 'w) list" where
  "map_values f d = map (\<lambda>(k, v). (k, f v)) d"

definition count_shape :: "prefs \<Rightarrow> (string \<times> (pyval \<times> int) list) list" where
  "count_shape p = map_values (map_values (\<lambda>(tot, avg, cnt). cnt)) p"

definition stored_count :: "prefs \<Rightarrow> string \<Rightarrow> pyval \<Rightarrow> int option" where
  "stored_count p user genre = map_option (\<lambda>(tot, avg, cnt). cnt) (lookup p user genre)"

definition rate_shape ::
  "string \<Rightarrow> pyval \<Rightarrow> (string \<times> (pyval \<times> int) list) list
     \<Rightarrow> error + (string \<times> (pyval \<times> int) list) list" where
  "rate_shape user_col genre s =
     (if \<not> hashable genre then Inl TypeError
      else
        let us = (case map_of s user_col of None \<Rightarrow> [] | Some us \<Rightarrow> us);
            cnt = (case map_of us genre of None \<Rightarrow> 0 | Some c \<Rightarrow> c)
        in if cnt + 1 = 0 then Inl ZeroDivisionError
           else Inr (setitem user_col (setitem genre (cnt + 1) us) s))"



subsection \<open>Example inputs\<close>

text \<open>
  The answers of \<open>ast.literal_eval\<close> on four texts: an empty list, a list of two
  strings, a bare name in brackets (a malformed node, \<open>ValueError\<close>) and a set that
  holds a list (\<open>TypeError\<close>, unhashable). It stands for the parser in the examples
  only; the theorems leave the parser arbitrary.
\<close>

definition sample_literal_eval :: literal_eval where
  "sample_literal_eval s =
     (if s = ''[]'' then Inr (PList [])
      else if s = ''['Jazz', 'Blues']'' then Inr (PList [PStr ''Jazz'', PStr ''Blues''])
      else if s = ''[Jazz]'' then Inl ValueError
      else if s = ''[{[]}]'' then Inl TypeError
      else Inl SyntaxError)"

definition one_rating_table :: "string \<Rightarrow> dataframe" where
  "one_rating_table s =
     \<lparr> columns = [''genre'', ''user_A''],
       rows = [(\<lambda>c. Missing)(''genre'' := Str s, ''user_A'' := Num 5)] \<rparr>"

definition rock_row :: row where
  "rock_row = (\<lambda>c. Missing)(''genre'' := Str ''Rock'', ''user_A'' := Num 5, ''user_B'' := Num 3)"

definition pop_row :: row where
  "pop_row = (\<lambda>c. Missing)(''genre'' := Str ''Pop'', ''user_A'' := Num 2, ''user_B'' := Num 4)"

definition two_row_table :: dataframe where
  "two_row_table = \<lparr> columns = [''genre'', ''user_A'', ''user_B''], rows = [rock_row, pop_row] \<rparr>"

definition two_row_prefs :: prefs where
  "two_row_prefs =
     [(''user_A'', [(PStr ''Rock'', (5, 5, 1)), (PStr ''Pop'', (2, 2, 1))]),
      (''user_B'', [(PStr ''Rock'', (3, 3, 1)), (PStr ''Pop'', (4, 4, 1))])]"

text \<open>
  Three ratings of one user for one genre, in two orders: \<open>2 ^ 53\<close>, 1 and
  \<open>- 2 ^ 53\<close>. All three are binary64 numbers.
\<close>

definition big_row :: row where
  "big_row = (\<lambda>c. Missing)(''genre'' := Str ''Rock'', ''user_A'' := Num 9007199254740992)"

definition one_row :: row where
  "one_row = (\<lambda>c. Missing)(''genre'' := Str ''Rock'', ''user_A'' := Num 1)"

definition minus_big_row :: row where
  "minus_big_row = (\<lambda>c. Missing)(''genre'' := Str ''Rock'', ''user_A'' := Num (- 9007199254740992))"

definition cancelling_table :: dataframe where
  "cancelling_table = \<lparr> columns = [''genre'', ''user_A''], rows = [big_row, one_row, minus_big_row] \<rparr>"

definition cancelling_table_permuted :: dataframe where
  "cancelling_table_permuted =
     \<lparr> columns = [''genre'', ''user_A''], rows = [big_row, minus_big_row, one_row] \<rparr>"

text \<open>Three users with one genre each.\<close>

definition three_user_prefs :: prefs where
  "three_user_prefs =
     [(''user_A'', [(PStr ''Rock'', (5, 5, 1))]),
      (''user_B'', [(PStr ''Pop'', (3, 3, 1))]),
      (''user_C'', [(PStr ''Jazz'', (5, 5, 1))])]"


section \<open>Dictionaries\<close>

lemma map_of_setitem: "map_of (setitem k v d) = (map_of d)(k \<mapsto> v)"
  by (induction d) (auto simp: fun_eq_iff)

lemma keys_setitem:
  "map fst (setitem k v d) = (if k \<in> fst ` set d then map fst d else map fst d @ [k])"
  by (induction d) force+

lemma distinct_setitem: "distinct (map fst d) \<Longrightarrow> distinct (map fst (setitem k v d))"
  by (simp add: keys_setitem)

lemma set_setitem: "set (setitem k v d) \<subseteq> insert (k, v) (set d)"
  by (induction d) (auto split: if_splits)

lemma wf_prefs_setitem:
  assumes "wf_prefs p" "distinct (map fst up)"
  shows "wf_prefs (setitem u up p)"
  using assms set_setitem[of u up p]
  by (auto simp: wf_prefs_def distinct_setitem)

lemma wf_prefs_lookup: "wf_prefs p \<Longrightarrow> map_of p u = Some up \<Longrightarrow> distinct (map fst up)"
  by (auto simp: wf_prefs_def dest: map_of_SomeD)

section \<open>The aggregator computes the statistics of the contributed ratings\<close>

text \<open>
  The proofs relate a dictionary \<open>p\<close> to the lists of ratings \<open>f user genre\<close> seen so
  far: \<open>p\<close> stores for each pair the statistics of its list. One rating, one row and
  a list of rows each extend the lists; the exceptions depend on the row alone.
\<close>

lemma lookup_setitem:
  "lookup (setitem u (setitem g st up) p) u' g' =
     (if u' = u then (if g' = g then Some st else map_of up g') else lookup p u' g')"
  by (simp add: lookup_def map_of_setitem)

lemma stats_of_snoc:
  "update_stats (case stats_of xs of None \<Rightarrow> (0, 0, 0) | Some st \<Rightarrow> st) x
     = Inr (the (stats_of (xs @ [x])))"
  by (simp add: stats_of_def update_stats_def Let_def add.commute)

lemma rate_sim:
  assumes abs: "\<forall>u' g'. lookup p u' g' = stats_of (f u' g')" and wf: "wf_prefs p" and h: "hashable g"
  shows "\<exists>p'. rate u g x p = Inr p' \<and> wf_prefs p' \<and>
           (\<forall>u' g'. lookup p' u' g' = stats_of (f u' g' @ (if u' = u \<and> g' = g then [x] else [])))"
proof -
  define up where "up = (case map_of p u of None \<Rightarrow> [] | Some up \<Rightarrow> up)"
  have up_lookup: "map_of up g' = lookup p u g'" for g'
    by (simp add: up_def lookup_def split: option.splits)
  have dup: "distinct (map fst up)"
    using wf by (auto simp: up_def dest: wf_prefs_lookup split: option.splits)
  define st where "st = the (stats_of (f u g @ [x]))"
  have cur: "update_stats (case map_of up g of None \<Rightarrow> (0, 0, 0) | Some st \<Rightarrow> st) x = Inr st"
    using stats_of_snoc[of "f u g" x] abs by (simp add: up_lookup st_def)
  have r: "rate u g x p = Inr (setitem u (setitem g st up) p)"
    using h cur by (simp add: rate_def up_def[symmetric] Let_def)
  have st_eq: "Some st = stats_of (f u g @ [x])"
    by (simp add: st_def stats_of_def)
  have "wf_prefs (setitem u (setitem g st up) p)"
    using wf dup by (simp add: wf_prefs_setitem distinct_setitem)
  moreover have "lookup (setitem u (setitem g st up) p) u' g'
      = stats_of (f u' g' @ (if u' = u \<and> g' = g then [x] else []))" for u' g'
    using abs st_eq by (simp add: lookup_setitem up_lookup)
  ultimately show ?thesis using r by blast
qed

lemma rate_unhashable: "\<not> hashable g \<Longrightarrow> rate u g x p = Inl TypeError"
  by (simp add: rate_def)

lemma users_ok_Cons:
  "users_ok (c # cs) r g =
     ((case r c of Str s \<Rightarrow> False | Num x \<Rightarrow> hashable g | Missing \<Rightarrow> True) \<and> users_ok cs r g)"
  by (simp add: users_ok_def)

lemma ratings_in_Cons:
  "ratings_in (c # cs) r u =
     (case r c of Num x \<Rightarrow> if c = u then [x] else [] | _ \<Rightarrow> []) @ ratings_in cs r u"
  by (simp add: ratings_in_def)

lemma process_users_sim:
  assumes "\<forall>u' g'. lookup p u' g' = stats_of (f u' g')" "wf_prefs p" "users_ok ucols r g"
  shows "\<exists>p'. process_users ucols r g p = Inr p' \<and> wf_prefs p' \<and>
           (\<forall>u' g'. lookup p' u' g' = stats_of (f u' g' @ (if g' = g then ratings_in ucols r u' else [])))"
  using assms
proof (induction ucols arbitrary: p f)
  case Nil
  then show ?case by (simp add: ratings_in_def)
next
  case (Cons c cs)
  have okcs: "users_ok cs r g" using Cons.prems(3) by (simp add: users_ok_Cons)
  show ?case
  proof (cases "r c")
    case (Str s)
    then show ?thesis using Cons.prems(3) by (simp add: users_ok_Cons)
  next
    case Missing
    obtain p' where p': "process_users cs r g p = Inr p'" "wf_prefs p'"
      "\<forall>u' g'. lookup p' u' g' = stats_of (f u' g' @ (if g' = g then ratings_in cs r u' else []))"
      using Cons.IH[OF Cons.prems(1,2) okcs] by blast
    show ?thesis
      using p' Missing by (simp add: ratings_in_Cons)
  next
    case (Num x)
    have h: "hashable g" using Cons.prems(3) Num by (simp add: users_ok_Cons)
    define f' where "f' = (\<lambda>u' g'. f u' g' @ (if u' = c \<and> g' = g then [x] else []))"
    obtain q where q: "rate c g x p = Inr q" "wf_prefs q"
      "\<forall>u' g'. lookup q u' g' = stats_of (f' u' g')"
      using rate_sim[OF Cons.prems(1,2) h, of c x] unfolding f'_def by blast
    obtain p' where p': "process_users cs r g q = Inr p'" "wf_prefs p'"
      "\<forall>u' g'. lookup p' u' g' = stats_of (f' u' g' @ (if g' = g then ratings_in cs r u' else []))"
      using Cons.IH[OF q(3) q(2) okcs] by blast
    have rt: "f' u' g' @ (if g' = g then ratings_in cs r u' else [])
           = f u' g' @ (if g' = g then ratings_in (c # cs) r u' else [])" for u' g'
      using Num by (simp add: f'_def ratings_in_Cons)
    have "process_users (c # cs) r g p = Inr p'"
      using Num q(1) p'(1) by simp
    then show ?thesis using p'(2,3) unfolding rt by blast
  qed
qed

lemma process_users_fail:
  assumes "\<forall>u' g'. lookup p u' g' = stats_of (f u' g')" "wf_prefs p" "\<not> users_ok ucols r g"
  shows "\<exists>e. process_users ucols r g p = Inl e"
  using assms
proof (induction ucols arbitrary: p f)
  case Nil
  then show ?case by (simp add: users_ok_def)
next
  case (Cons c cs)
  show ?case
  proof (cases "r c")
    case (Str s)
    then show ?thesis by simp
  next
    case Missing
    then have "\<not> users_ok cs r g" using Cons.prems(3) by (simp add: users_ok_Cons)
    from Cons.IH[OF Cons.prems(1,2) this] show ?thesis using Missing by simp
  next
    case (Num x)
    show ?thesis
    proof (cases "hashable g")
      case False
      then show ?thesis using Num by (simp add: rate_unhashable)
    next
      case True
      then have nok: "\<not> users_ok cs r g" using Cons.prems(3) Num by (simp add: users_ok_Cons)
      obtain q where q: "rate c g x p = Inr q" "wf_prefs q"
        "\<forall>u' g'. lookup q u' g' = stats_of (f u' g' @ (if u' = c \<and> g' = g then [x] else []))"
        using rate_sim[OF Cons.prems(1,2) True, of c x] by blast
      from Cons.IH[OF q(3) q(2) nok] show ?thesis using Num q(1) by simp
    qed
  qed
qed

lemma process_row_sim:
  assumes "\<forall>u' g'. lookup p u' g' = stats_of (f u' g')" "wf_prefs p" "row_ok le cols r"
  shows "\<exists>p'. process_row le cols r p = Inr p' \<and> wf_prefs p' \<and>
           (\<forall>u' g'. lookup p' u' g' =
              stats_of (f u' g' @ (if row_genre le r = Some g' then ratings_in (user_columns cols) r u' else [])))"
proof (cases "\<exists>s g. r ''genre'' = Str s \<and> s \<noteq> [] \<and> effective_genre le s = Inr g")
  case True
  then obtain s g where s: "r ''genre'' = Str s" "s \<noteq> []" "effective_genre le s = Inr g" by blast
  have rg: "row_genre le r = Some g" using s by (simp add: row_genre_def)
  have ok: "users_ok (user_columns cols) r g" and gc: "''genre'' \<in> set cols"
    using assms(3) s by (simp_all add: row_ok_def)
  have pr: "process_row le cols r p = process_users (user_columns cols) r g p"
    using s gc by (simp add: process_row_def)
  have eq: "(row_genre le r = Some g') = (g' = g)" for g'
    using rg by auto
  show ?thesis
    using process_users_sim[OF assms(1,2) ok] unfolding pr eq by simp
next
  case False
  have rg: "row_genre le r = None"
    using False by (auto simp: row_genre_def split: cell.splits sum.splits)
  have gc: "''genre'' \<in> set cols" using assms(3) by (simp add: row_ok_def)
  have "process_row le cols r p = Inr p"
    using False gc assms(3) by (auto simp: process_row_def row_ok_def split: cell.splits sum.splits)
  then show ?thesis using assms(1,2) by (simp add: rg)
qed

lemma process_row_fail:
  assumes "\<forall>u' g'. lookup p u' g' = stats_of (f u' g')" "wf_prefs p" "\<not> row_ok le cols r"
  shows "\<exists>e. process_row le cols r p = Inl e"
proof (cases "''genre'' \<in> set cols")
  case False
  then show ?thesis by (simp add: process_row_def)
next
  case True
  then obtain s where s: "r ''genre'' = Str s" "s \<noteq> []"
    using assms(3) by (auto simp: row_ok_def split: cell.splits)
  show ?thesis
  proof (cases "effective_genre le s")
    case (Inl e)
    then show ?thesis using s True by (simp add: process_row_def)
  next
    case (Inr g)
    then have "\<not> users_ok (user_columns cols) r g"
      using assms(3) s True by (simp add: row_ok_def)
    from process_users_fail[OF assms(1,2) this] show ?thesis
      using s True Inr by (simp add: process_row_def)
  qed
qed

lemma contributions_Cons:
  "contributions le cols (r # rs) u g =
     (if row_genre le r = Some g then ratings_in (user_columns cols) r u else []) @ contributions le cols rs u g"
  by (simp add: contributions_def)

lemma process_rows_sim:
  assumes "\<forall>u' g'. lookup p u' g' = stats_of (f u' g')" "wf_prefs p" "\<forall>r \<in> set rs. row_ok le cols r"
  shows "\<exists>p'. process_rows le cols rs p = Inr p' \<and> wf_prefs p' \<and>
           (\<forall>u' g'. lookup p' u' g' = stats_of (f u' g' @ contributions le cols rs u' g'))"
  using assms
proof (induction rs arbitrary: p f)
  case Nil
  then show ?case by (simp add: contributions_def)
next
  case (Cons r rs)
  define f' where "f' = (\<lambda>u' g'. f u' g' @ (if row_genre le r = Some g' then ratings_in (user_columns cols) r u' else []))"
  have okr: "row_ok le cols r" and okrs: "\<forall>r \<in> set rs. row_ok le cols r"
    using Cons.prems(3) by simp_all
  obtain q where q: "process_row le cols r p = Inr q" "wf_prefs q"
    "\<forall>u' g'. lookup q u' g' = stats_of (f' u' g')"
    using process_row_sim[OF Cons.prems(1,2) okr] unfolding f'_def by blast
  obtain p' where p': "process_rows le cols rs q = Inr p'" "wf_prefs p'"
    "\<forall>u' g'. lookup p' u' g' = stats_of (f' u' g' @ contributions le cols rs u' g')"
    using Cons.IH[OF q(3) q(2) okrs] by blast
  have "process_rows le cols (r # rs) p = Inr p'" using q(1) p'(1) by simp
  moreover have "f' u' g' @ contributions le cols rs u' g' = f u' g' @ contributions le cols (r # rs) u' g'" for u' g'
    by (simp add: f'_def contributions_Cons)
  ultimately show ?case using p'(2,3) by simp
qed

lemma process_rows_fail:
  assumes "\<forall>u' g'. lookup p u' g' = stats_of (f u' g')" "wf_prefs p" "\<not> (\<forall>r \<in> set rs. row_ok le cols r)"
  shows "\<exists>e. process_rows le cols rs p = Inl e"
  using assms
proof (induction rs arbitrary: p f)
  case Nil
  then show ?case by simp
next
  case (Cons r rs)
  show ?case
  proof (cases "row_ok le cols r")
    case False
    from process_row_fail[OF Cons.prems(1,2) this] show ?thesis by auto
  next
    case True
    then have nok: "\<not> (\<forall>r \<in> set rs. row_ok le cols r)" using Cons.prems(3) by simp
    obtain q where q: "process_row le cols r p = Inr q" "wf_prefs q"
      "\<forall>u' g'. lookup q u' g' =
         stats_of (f u' g' @ (if row_genre le r = Some g' then ratings_in (user_columns cols) r u' else []))"
      using process_row_sim[OF Cons.prems(1,2) True] by blast
    from Cons.IH[OF q(3) q(2) nok] show ?thesis using q(1) by simp
  qed
qed

lemma empty_abs: "\<forall>u' g'. lookup [] u' g' = stats_of ([] :: real list)"
  by (simp add: lookup_def stats_of_def)

lemma wf_prefs_Nil: "wf_prefs []"
  by (simp add: wf_prefs_def)

lemma process_rows_result:
  assumes "process_rows le cols rs [] = Inr p"
  shows "wf_prefs p \<and> (\<forall>r \<in> set rs. row_ok le cols r) \<and>
         (\<forall>u g. lookup p u g = stats_of (contributions le cols rs u g))"
proof -
  have ok: "\<forall>r \<in> set rs. row_ok le cols r"
    using process_rows_fail[of "[]" "\<lambda>u g. []" rs le cols] assms empty_abs wf_prefs_Nil
    by (metis Inl_Inr_False)
  from process_rows_sim[of "[]" "\<lambda>u g. []", OF _ wf_prefs_Nil ok] assms empty_abs
  show ?thesis using ok by auto
qed

lemma process_rows_total:
  assumes "\<forall>r \<in> set rs. row_ok le cols r"
  shows "\<exists>p. process_rows le cols rs [] = Inr p"
  using process_rows_sim[of "[]" "\<lambda>u g. []", OF _ wf_prefs_Nil assms] empty_abs by blast


lemma stats_of_mset: "mset xs = mset ys \<Longrightarrow> stats_of xs = stats_of ys"
proof -
  assume h: "mset xs = mset ys"
  have "sum_list xs = sum_list ys" using h by (metis sum_mset_sum_list)
  moreover have "length xs = length ys" using h by (metis size_mset)
  moreover have "(xs = []) = (ys = [])" using h by (metis mset_zero_iff)
  ultimately show ?thesis by (simp add: stats_of_def)
qed

lemma mset_concat_map:
  "mset (concat (map h rs)) = sum_mset (image_mset (\<lambda>r. mset (h r)) (mset rs))"
  by (induction rs) simp_all

lemma mset_contributions:
  "mset rs' = mset rs \<Longrightarrow> mset (contributions le cols rs' u g) = mset (contributions le cols rs u g)"
  by (simp add: contributions_def mset_concat_map)



text \<open>Any other exception of the parser leaves the function.\<close>

lemma effective_genre_propagates:
  "startswith ''['' s \<Longrightarrow> endswith '']'' s \<Longrightarrow> le s = Inl e \<Longrightarrow>
     e \<noteq> ValueError \<Longrightarrow> e \<noteq> SyntaxError \<Longrightarrow> effective_genre le s = Inl e"
  by (simp add: effective_genre_def)

text \<open>What the aggregator returns is a well-formed dictionary of dictionaries.\<close>

lemma calculate_genre_preferences_wf:
  "calculate_genre_preferences le songs_df = Inr p \<Longrightarrow> wf_prefs p"
  using process_rows_result[of le "columns songs_df" "rows songs_df" p]
  by (simp add: calculate_genre_preferences_def)

section \<open>Claims about the aggregator\<close>



text \<open>
  In exact arithmetic the order of the rows does not matter: two tables with the same
  columns and the same rows in another order both raise, or store the same
  \<open>(total, average, count)\<close> for every user and genre, and the same pairs.
\<close>

lemma order_insensitive_exact:
  assumes "columns df' = columns df" and "mset (rows df') = mset (rows df)"
  shows "case calculate_genre_preferences le df of
           Inl e \<Rightarrow> \<exists>e'. calculate_genre_preferences le df' = Inl e'
         | Inr p \<Rightarrow> \<exists>p'. calculate_genre_preferences le df' = Inr p' \<and>
                      (\<forall>user genre. lookup p' user genre = lookup p user genre)"
proof (cases "calculate_genre_preferences le df")
  case (Inl e)
  have "\<not> (\<forall>r \<in> set (rows df). row_ok le (columns df) r)"
    using process_rows_total[of "rows df" le "columns df"] Inl
    by (auto simp: calculate_genre_preferences_def)
  then have "\<not> (\<forall>r \<in> set (rows df'). row_ok le (columns df') r)"
    using assms mset_eq_setD[of "rows df'" "rows df"] by simp
  from process_rows_fail[OF empty_abs wf_prefs_Nil this]
  show ?thesis using Inl by (simp add: calculate_genre_preferences_def)
next
  case (Inr p)
  then have run: "process_rows le (columns df) (rows df) [] = Inr p"
    by (simp add: calculate_genre_preferences_def)
  from process_rows_result[OF run]
  have ok: "\<forall>r \<in> set (rows df). row_ok le (columns df) r"
    and lk: "\<And>u g. lookup p u g = stats_of (contributions le (columns df) (rows df) u g)"
    by simp_all
  have ok': "\<forall>r \<in> set (rows df'). row_ok le (columns df') r"
    using ok assms mset_eq_setD[of "rows df'" "rows df"] by simp
  obtain p' where p': "process_rows le (columns df') (rows df') [] = Inr p'"
    using process_rows_total[OF ok'] by blast
  from process_rows_result[OF p']
  have lk': "\<And>u g. lookup p' u g = stats_of (contributions le (columns df') (rows df') u g)"
    by simp
  have "lookup p' u g = lookup p u g" for u g
    unfolding lk lk' assms(1)
    by (rule stats_of_mset) (rule mset_contributions[OF assms(2)])
  then show ?thesis using Inr p' by (simp add: calculate_genre_preferences_def)
qed

text \<open>
  A genre text in brackets is given to the literal parser. When the parser returns a
  non-empty list, the genre is its first element; when it raises \<open>ValueError\<close> or
  \<open>SyntaxError\<close>, the genre is the text itself. So the cell \<open>['Jazz', 'Blues']\<close> is
  stored under the key \<open>Jazz\<close>, and the cell \<open>[Jazz\<close>, which has no closing bracket
  and is not parsed at all, under the key \<open>[Jazz\<close>.
\<close>

lemma genre_list_literal:
  "(startswith ''['' s \<and> endswith '']'' s \<and> le s = Inr (PList (g # gs))
      \<longrightarrow> effective_genre le s = Inr g)
   \<and> (startswith ''['' s \<and> endswith '']'' s \<and> (le s = Inl ValueError \<or> le s = Inl SyntaxError)
      \<longrightarrow> effective_genre le s = Inr (PStr s))
   \<and> (le ''['Jazz', 'Blues']'' = Inr (PList [PStr ''Jazz'', PStr ''Blues''])
      \<longrightarrow> calculate_genre_preferences le (one_rating_table ''['Jazz', 'Blues']'')
            = Inr [(''user_A'', [(PStr ''Jazz'', (5, 5, 1))])])
   \<and> calculate_genre_preferences le (one_rating_table ''[Jazz'')
        = Inr [(''user_A'', [(PStr ''[Jazz'', (5, 5, 1))])]"
  by (auto simp: effective_genre_def calculate_genre_preferences_def one_rating_table_def
      process_row_def startswith_def endswith_def user_columns_def rate_def update_stats_def)

text \<open>
  C8. The handler of line 30 names \<open>ValueError\<close> and \<open>SyntaxError\<close> only. The text
  \<open>[{[]}]\<close> begins and ends with a bracket and makes the parser raise \<open>TypeError\<close>:
  the exception leaves \<open>calculate_genre_preferences\<close>, and the text is not used as the
  genre, against the comment of line 31.
\<close>

theorem type_error_escapes:
  assumes "le ''[{[]}]'' = Inl TypeError"
  shows "effective_genre le ''[{[]}]'' = Inl TypeError
       \<and> calculate_genre_preferences le (one_rating_table ''[{[]}]'') = Inl TypeError"
  using assms
  by (simp add: effective_genre_def startswith_def endswith_def calculate_genre_preferences_def
      one_rating_table_def process_row_def)

theorem type_error_escapes_witness:
  "sample_literal_eval ''[{[]}]'' = Inl TypeError
   \<and> effective_genre sample_literal_eval ''[{[]}]'' = Inl TypeError
   \<and> calculate_genre_preferences sample_literal_eval (one_rating_table ''[{[]}]'') = Inl TypeError"
proof -
  have a: "sample_literal_eval ''[{[]}]'' = Inl TypeError" by (simp add: sample_literal_eval_def)
  show ?thesis
    using a type_error_escapes[of sample_literal_eval] by simp
qed

text \<open>
  C9. The text \<open>[]\<close> parses to the empty list, whose first element is taken without a
  check: the row raises \<open>IndexError\<close>, which the handler does not catch, and a table
  with such a row yields no result.
\<close>

theorem empty_list_literal_raises:
  assumes "le ''[]'' = Inr (PList [])" and "r ''genre'' = Str ''[]''"
  shows "(''genre'' \<in> set cols \<longrightarrow> process_row le cols r p = Inl IndexError)
       \<and> (''genre'' \<in> set cols \<longrightarrow>
            calculate_genre_preferences le \<lparr> columns = cols, rows = r # rs \<rparr> = Inl IndexError)
       \<and> (r \<in> set (rows df) \<longrightarrow> (\<exists>e. calculate_genre_preferences le df = Inl e))"
proof -
  have eg: "effective_genre le ''[]'' = Inl IndexError"
    using assms(1) by (simp add: effective_genre_def startswith_def endswith_def)
  have pr: "''genre'' \<in> set cols \<Longrightarrow> process_row le cols r p = Inl IndexError" for cols p
    using eg assms(2) by (simp add: process_row_def)
  have nok: "\<not> row_ok le (columns df) r"
    using eg assms(2) by (simp add: row_ok_def)
  have "r \<in> set (rows df) \<Longrightarrow> \<exists>e. calculate_genre_preferences le df = Inl e"
    using process_rows_fail[OF empty_abs wf_prefs_Nil, of "rows df" le "columns df"] nok
    by (auto simp: calculate_genre_preferences_def)
  then show ?thesis using pr by (simp add: calculate_genre_preferences_def)
qed

theorem empty_list_literal_raises_witness:
  "sample_literal_eval ''[]'' = Inr (PList [])
   \<and> ((\<lambda>c. Missing)(''genre'' := Str ''[]'', ''user_A'' := Num 5)) ''genre'' = Str ''[]''
   \<and> ''genre'' \<in> set [''genre'', ''user_A'']
   \<and> calculate_genre_preferences sample_literal_eval (one_rating_table ''[]'') = Inl IndexError"
proof -
  have a: "sample_literal_eval ''[]'' = Inr (PList [])" by (simp add: sample_literal_eval_def)
  have b: "((\<lambda>c. Missing)(''genre'' := Str ''[]'', ''user_A'' := Num 5)) ''genre'' = Str ''[]''"
    by simp
  have c: "''genre'' \<in> set [''genre'', ''user_A'']" by simp
  show ?thesis
    using a b c
      empty_list_literal_raises[where le = sample_literal_eval
        and r = "(\<lambda>c. Missing)(''genre'' := Str ''[]'', ''user_A'' := Num 5)"
        and cols = "[''genre'', ''user_A'']" and rs = "[]"]
    by (simp add: one_rating_table_def)
qed

section \<open>Claims about the ranker and the recommender\<close>

text \<open>
  C1. The two-row table (Rock: 5 and 3, Pop: 2 and 4) aggregates to the four expected
  triples; the only user similar to \<open>user_A\<close> is \<open>user_B\<close>; and with the top genre of
  \<open>user_A\<close> excluded the recommendation is Pop.
\<close>

theorem two_row_scenario:
  "calculate_genre_preferences le two_row_table = Inr two_row_prefs
   \<and> find_similar_users ''user_A'' two_row_prefs 1 = [''user_B'']
   \<and> find_next_best_genre ''user_A'' two_row_prefs [''user_B''] 1 = Inr (Some (PStr ''Pop''))"
proof -
  have "calculate_genre_preferences le two_row_table = Inr two_row_prefs"
    by (simp add: calculate_genre_preferences_def two_row_table_def two_row_prefs_def
        rock_row_def pop_row_def process_row_def effective_genre_def
        startswith_def endswith_def user_columns_def rate_def update_stats_def)
  moreover have "find_similar_users ''user_A'' two_row_prefs 1 = [''user_B'']"
    by (simp add: find_similar_users_def two_row_prefs_def all_genres_def user_vector_def
        similarities_def sorted_desc_def py_take_def)
  moreover have "find_next_best_genre ''user_A'' two_row_prefs [''user_B''] 1 = Inr (Some (PStr ''Pop''))"
    by (simp add: find_next_best_genre_def two_row_prefs_def target_top_genres_def
        sorted_desc_def py_take_def similarity_weight_def add_score_def)
  ultimately show ?thesis by simp
qed

text \<open>
  C5. A target user that the mapping does not have gives the empty list in the ranker
  and no recommendation in the recommender, and so does an empty list of similar users;
  these are results, not exceptions.
\<close>

theorem fail_soft:
  "(target_user \<notin> fst ` set p \<longrightarrow> find_similar_users target_user p n = [])
   \<and> find_next_best_genre target_user p [] k = Inr None
   \<and> (target_user \<notin> fst ` set p \<longrightarrow> find_next_best_genre target_user p similar_users k = Inr None)"
proof -
  have "map_of p target_user = None" if "target_user \<notin> fst ` set p"
    using that by (simp add: map_of_eq_None_iff)
  then show ?thesis
    by (simp add: find_similar_users_def find_next_best_genre_def)
qed

theorem fail_soft_witness:
  "''user_Z'' \<notin> fst ` set two_row_prefs
   \<and> find_similar_users ''user_Z'' two_row_prefs 3 = []
   \<and> find_next_best_genre ''user_Z'' two_row_prefs [''user_A''] 2 = Inr None"
proof -
  have a: "''user_Z'' \<notin> fst ` set two_row_prefs" by (simp add: two_row_prefs_def)
  show ?thesis
    using a fail_soft[of "''user_Z''" two_row_prefs 3 2 "[''user_A'']"]
    by blast
qed

section \<open>The ranker\<close>

lemma py_take_nonneg: "0 \<le> n \<Longrightarrow> py_take n xs = take (nat n) xs"
  by (simp add: py_take_def)

lemma set_py_take: "set (py_take n xs) \<subseteq> set xs"
  by (auto simp: py_take_def dest: in_set_takeD)

lemma map_fst_similarities:
  "map fst (similarities t tv (map (\<lambda>(user, up). (user, h up)) p)) = filter (\<lambda>u. u \<noteq> t) (map fst p)"
  by (induction p) (auto simp: similarities_def)

lemma find_similar_users_unfold:
  assumes "map_of p t = Some tp"
  shows "find_similar_users t p n =
           map fst (py_take n (sorted_desc snd
             (similarities t (user_vector (all_genres p) tp)
                (map (\<lambda>(user, up). (user, user_vector (all_genres p) up)) p))))"
  using assms by (simp add: find_similar_users_def map_of_map Let_def)

lemma mset_sorted_desc: "mset (sorted_desc key xs) = mset xs"
  by (simp add: sorted_desc_def)

lemma length_filter_neq:
  "distinct xs \<Longrightarrow> t \<in> set xs \<Longrightarrow> length (filter (\<lambda>u. u \<noteq> t) xs) = length xs - 1"
proof (induction xs)
  case Nil
  then show ?case by simp
next
  case (Cons x xs)
  show ?case
  proof (cases "x = t")
    case True
    then have "t \<notin> set xs" using Cons.prems(1) by simp
    then have "filter (\<lambda>u. u \<noteq> t) xs = xs" by (auto simp: filter_id_conv)
    then show ?thesis using True by simp
  next
    case False
    then have "t \<in> set xs" using Cons.prems(2) by simp
    then have "0 < length xs" by (cases xs) auto
    then show ?thesis using Cons False \<open>t \<in> set xs\<close> by simp
  qed
qed








text \<open>The similarity does not depend on the order in which the genres are listed.\<close>

lemma sum_list_map_mset:
  assumes "mset xs = mset ys"
  shows "sum_list (map f xs) = sum_list (map (f :: 'a \<Rightarrow> real) ys)"
proof -
  have "mset (map f xs) = mset (map f ys)" using assms by simp
  then have "sum_mset (mset (map f xs)) = sum_mset (mset (map f ys))" by (rule arg_cong)
  then show ?thesis by (simp only: sum_mset_sum_list)
qed

lemma dot_reorder:
  assumes "mset gs' = mset gs"
  shows "dot (user_vector gs' a) (user_vector gs' b) = dot (user_vector gs a) (user_vector gs b)"
proof -
  have "dot (user_vector xs a) (user_vector xs b) = sum_list (map (\<lambda>g. avg_rating a g * avg_rating b g) xs)" for xs
    by (simp add: dot_def user_vector_def zip_map_map comp_def zip_same_conv_map)
  then show ?thesis using sum_list_map_mset[OF assms] by simp
qed

lemma norm_vec_reorder:
  assumes "mset gs' = mset gs"
  shows "norm_vec (user_vector gs' a) = norm_vec (user_vector gs a)"
proof -
  have "norm_vec (user_vector xs a) = sqrt (sum_list (map (\<lambda>g. avg_rating a g * avg_rating a g) xs))" for xs
    by (simp add: norm_vec_def user_vector_def comp_def)
  then show ?thesis using sum_list_map_mset[OF assms] by simp
qed

lemma cosine_similarity_reorder:
  assumes "mset gs' = mset gs"
  shows "cosine_similarity (user_vector gs' a) (user_vector gs' b)
       = cosine_similarity (user_vector gs a) (user_vector gs b)"
  by (simp add: cosine_similarity_def dot_reorder[OF assms] norm_vec_reorder[OF assms])

section \<open>The recommender\<close>

text \<open>
  Both loops are followed with \<open>adds_scores\<close>: the inner loop adds the share of one
  user's items, the outer loop the contributions of the users it has visited. Neither
  raises: a user taken from the list has a position in it, and the list is not empty.
\<close>

lemma index_of_member: "x \<in> set xs \<Longrightarrow> index_of xs x = Inr (first_index xs x)"
  by (induction xs) (auto simp: first_index_def)

lemma similarity_weight_member:
  "user \<in> set su \<Longrightarrow> similarity_weight su user = Inr (position_weight su user)"
  by (auto simp: similarity_weight_def index_of_member position_weight_def)
























lemma score_genres_total:
  "user \<in> set su \<Longrightarrow> \<exists>sc'. score_genres su user tops items sc = Inr sc'"
proof (induction items arbitrary: sc)
  case Nil
  then show ?case by simp
next
  case (Cons it items)
  obtain g0 tot avg cnt where it: "it = (g0, (tot, avg, cnt))" by (cases it) auto
  show ?case
    using Cons.IH[OF Cons.prems] similarity_weight_member[OF Cons.prems] by (simp add: it)
qed

lemma score_users_total:
  "set users \<subseteq> set su \<Longrightarrow> \<exists>sc'. score_users p su tops users sc = Inr sc'"
proof (induction users arbitrary: sc)
  case Nil
  then show ?case by simp
next
  case (Cons user users)
  have sub: "set users \<subseteq> set su" and mem: "user \<in> set su" using Cons.prems by simp_all
  show ?case
  proof (cases "map_of p user")
    case None
    then show ?thesis using Cons.IH[OF sub] by simp
  next
    case (Some up)
    obtain sc1 where "score_genres su user tops up sc = Inr sc1"
      using score_genres_total[OF mem] by blast
    then show ?thesis using Some Cons.IH[OF sub, of sc1] by simp
  qed
qed

lemma find_next_best_genre_total: "\<exists>r. find_next_best_genre t p su k = Inr r"
proof (cases "su = [] \<or> map_of p t = None")
  case True
  then show ?thesis by (auto simp: find_next_best_genre_def)
next
  case False
  then obtain tp where tp: "map_of p t = Some tp" by auto
  obtain sc where "score_users p su (set (target_top_genres tp k)) su [] = Inr sc"
    using score_users_total[of su su p] by blast
  then show ?thesis
    using False tp by (simp add: find_next_best_genre_def split: list.splits prod.splits)
qed

lemma map_of_ghost:
  "map_of p ghost = None \<Longrightarrow>
     map_of (p @ [(ghost, v)]) user = (if user = ghost then Some v else map_of p user)"
  by (auto simp: map_add_def split: option.splits)

lemma score_users_ghost:
  assumes "map_of p ghost = None"
  shows "score_users (p @ [(ghost, [])]) su tops users sc = score_users p su tops users sc"
proof (induction users arbitrary: sc)
  case Nil
  then show ?case by simp
next
  case (Cons user users)
  show ?case
  proof (cases "user = ghost")
    case True
    then show ?thesis using assms Cons.IH by (simp add: map_of_ghost del: map_of_append)
  next
    case False
    then show ?thesis using assms Cons.IH
      by (simp add: map_of_ghost del: map_of_append split: option.splits sum.splits)
  qed
qed




section \<open>Further claims about the ranker and the recommender\<close>

text \<open>
  C6. With the target among the users of a well-formed mapping and \<open>n \<ge> 0\<close>, the
  ranker returns exactly \<open>min n (number of other users)\<close> users, hence at most that
  many; the target is not among them; they are users of the mapping, without
  repetition; \<open>n = 0\<close> gives the empty list; and an \<open>n\<close> that reaches the number of
  other users gives all of them.
\<close>

theorem find_similar_users_bounds:
  assumes "distinct (map fst p)" and "target_user \<in> fst ` set p" and "0 \<le> n"
  shows "length (find_similar_users target_user p n) = min (nat n) (length p - 1)
       \<and> length (find_similar_users target_user p n) \<le> min (nat n) (length p - 1)
       \<and> target_user \<notin> set (find_similar_users target_user p n)
       \<and> set (find_similar_users target_user p n) \<subseteq> fst ` set p
       \<and> distinct (find_similar_users target_user p n)
       \<and> find_similar_users target_user p 0 = []
       \<and> (int (length p - 1) \<le> n \<longrightarrow>
            set (find_similar_users target_user p n) = fst ` set p - {target_user})"
proof -
  obtain tp where tp: "map_of p target_user = Some tp"
    using assms(2) by (cases "map_of p target_user") (auto simp: map_of_eq_None_iff)
  define sims where "sims = sorted_desc snd
             (similarities target_user (user_vector (all_genres p) tp)
                (map (\<lambda>(user, up). (user, user_vector (all_genres p) up)) p))"
  have r: "find_similar_users target_user p m = map fst (take (nat m) sims)" if "0 \<le> m" for m
    using that by (simp add: find_similar_users_unfold[OF tp] sims_def py_take_nonneg)
  have "mset (map fst sims) = mset (map fst (similarities target_user (user_vector (all_genres p) tp)
                (map (\<lambda>(user, up). (user, user_vector (all_genres p) up)) p)))"
    by (simp add: sims_def mset_sorted_desc)
  then have ms: "mset (map fst sims) = mset (filter (\<lambda>u. u \<noteq> target_user) (map fst p))"
    by (simp only: map_fst_similarities)
  have "length (map fst sims) = length (filter (\<lambda>u. u \<noteq> target_user) (map fst p))"
    by (rule mset_eq_length[OF ms])
  then have len: "length sims = length p - 1"
    using length_filter_neq[of "map fst p" target_user] assms(1,2) by simp
  have "set (map fst sims) = set (filter (\<lambda>u. u \<noteq> target_user) (map fst p))"
    by (rule mset_eq_setD[OF ms])
  then have st: "set (map fst sims) = fst ` set p - {target_user}"
    by auto
  have "distinct (filter (\<lambda>u. u \<noteq> target_user) (map fst p))"
    using assms(1) by (rule distinct_filter)
  then have dist: "distinct (map fst sims)"
    using mset_eq_imp_distinct_iff[OF ms] by simp
  have tk: "map fst (take (nat n) sims) = take (nat n) (map fst sims)"
    by (simp add: take_map)
  have sub: "set (find_similar_users target_user p n) \<subseteq> fst ` set p - {target_user}"
    unfolding r[OF assms(3)] tk using st set_take_subset[of "nat n" "map fst sims"] by simp
  have "length (find_similar_users target_user p n) = min (nat n) (length p - 1)"
    by (simp add: r[OF assms(3)] len)
  moreover have "distinct (find_similar_users target_user p n)"
    unfolding r[OF assms(3)] tk using dist by simp
  moreover have "find_similar_users target_user p 0 = []"
    using r[of 0] by simp
  moreover have "set (find_similar_users target_user p n) = fst ` set p - {target_user}"
    if "int (length p - 1) \<le> n"
  proof -
    have "take (nat n) sims = sims" using that len by simp
    then show ?thesis using st by (simp add: r[OF assms(3)])
  qed
  ultimately show ?thesis using sub by auto
qed

theorem find_similar_users_bounds_witness:
  "distinct (map fst two_row_prefs) \<and> ''user_A'' \<in> fst ` set two_row_prefs \<and> (0::int) \<le> 1
   \<and> int (length two_row_prefs - 1) \<le> 1
   \<and> length (find_similar_users ''user_A'' two_row_prefs 1) = min (nat 1) (length two_row_prefs - 1)
   \<and> ''user_A'' \<notin> set (find_similar_users ''user_A'' two_row_prefs 1)
   \<and> find_similar_users ''user_A'' two_row_prefs 0 = []
   \<and> set (find_similar_users ''user_A'' two_row_prefs 1) = fst ` set two_row_prefs - {''user_A''}"
proof -
  have a: "distinct (map fst two_row_prefs)" by (simp add: two_row_prefs_def)
  have b: "''user_A'' \<in> fst ` set two_row_prefs" by (simp add: two_row_prefs_def)
  have c: "(0::int) \<le> 1" by simp
  have d: "int (length two_row_prefs - 1) \<le> 1" by (simp add: two_row_prefs_def)
  show ?thesis
    using a b c d find_similar_users_bounds[OF a b c] by blast
qed




text \<open>
  Listing a user that the mapping lacks does change the weights of the others: the
  length of the list is the denominator of every weight. \<open>user_C\<close> weighs 1/2 in the
  list of \<open>user_B\<close> and \<open>user_C\<close>, and 2/3 once the absent \<open>user_X\<close> is appended;
  the recommendation moves from Pop to Jazz.
\<close>

theorem absent_user_changes_weights:
  "map_of three_user_prefs ''user_X'' = None
   \<and> similarity_weight [''user_B'', ''user_C''] ''user_C'' = Inr (1 / 2)
   \<and> similarity_weight [''user_B'', ''user_C'', ''user_X''] ''user_C'' = Inr (2 / 3)
   \<and> find_next_best_genre ''user_A'' three_user_prefs [''user_B'', ''user_C''] 1
       = Inr (Some (PStr ''Pop''))
   \<and> find_next_best_genre ''user_A'' three_user_prefs [''user_B'', ''user_C'', ''user_X''] 1
       = Inr (Some (PStr ''Jazz''))"
proof -
  have a: "map_of three_user_prefs ''user_X'' = None" by (simp add: three_user_prefs_def)
  have b: "similarity_weight [''user_B'', ''user_C''] ''user_C'' = Inr (1 / 2)"
    by (simp add: similarity_weight_def)
  have c: "similarity_weight [''user_B'', ''user_C'', ''user_X''] ''user_C'' = Inr (2 / 3)"
    by (simp add: similarity_weight_def)
  have d: "find_next_best_genre ''user_A'' three_user_prefs [''user_B'', ''user_C''] 1
       = Inr (Some (PStr ''Pop''))"
    by (simp add: find_next_best_genre_def three_user_prefs_def target_top_genres_def
        sorted_desc_def py_take_def similarity_weight_def add_score_def)
  have e: "find_next_best_genre ''user_A'' three_user_prefs [''user_B'', ''user_C'', ''user_X''] 1
       = Inr (Some (PStr ''Jazz''))"
    by (simp add: find_next_best_genre_def three_user_prefs_def target_top_genres_def
        sorted_desc_def py_take_def similarity_weight_def add_score_def)
  show ?thesis using a b c d e by simp
qed

text \<open>
  C10. The recommender returns a value for every list of similar users, whatever users
  of the list the mapping lacks. Such a user is skipped by the loop and adds no score:
  the result is the one obtained when the mapping gives that user an empty dictionary.
  It still counts in the list: the weight of a listed user is \<open>1 - index / length\<close>
  with the first index in, and the length of, the whole list, absent users included.
\<close>

theorem absent_similar_users_skipped:
  "(\<exists>r. find_next_best_genre target_user p similar_users k = Inr r)
   \<and> (map_of p ghost = None \<longrightarrow>
        score_users p similar_users tops (ghost # users) sc = score_users p similar_users tops users sc)
   \<and> (map_of p ghost = None \<and> ghost \<noteq> target_user \<longrightarrow>
        find_next_best_genre target_user (p @ [(ghost, [])]) similar_users k
          = find_next_best_genre target_user p similar_users k)
   \<and> (user \<in> set similar_users \<longrightarrow>
        similarity_weight similar_users user
          = Inr (1 - real (first_index similar_users user) / real (length similar_users)))"
proof -
  have "find_next_best_genre target_user (p @ [(ghost, [])]) similar_users k
          = find_next_best_genre target_user p similar_users k"
    if "map_of p ghost = None" "ghost \<noteq> target_user"
    using that
    by (simp add: find_next_best_genre_def map_of_ghost score_users_ghost[OF that(1)]
          del: map_of_append split: option.splits)
  then show ?thesis
    using find_next_best_genre_total[of target_user p similar_users k]
      similarity_weight_member[of user similar_users]
    by (simp add: position_weight_def)
qed

theorem absent_similar_users_skipped_witness:
  "map_of two_row_prefs ''user_X'' = None \<and> ''user_X'' \<noteq> ''user_A''
   \<and> find_next_best_genre ''user_A'' (two_row_prefs @ [(''user_X'', [])]) [''user_X'', ''user_B''] 1
       = find_next_best_genre ''user_A'' two_row_prefs [''user_X'', ''user_B''] 1
   \<and> score_users two_row_prefs [''user_X'', ''user_B''] {} (''user_X'' # [''user_B'']) []
       = score_users two_row_prefs [''user_X'', ''user_B''] {} [''user_B''] []
   \<and> ''user_B'' \<in> set [''user_X'', ''user_B'']
   \<and> similarity_weight [''user_X'', ''user_B''] ''user_B'' = Inr (1 / 2)"
proof -
  have a: "map_of two_row_prefs ''user_X'' = None" by (simp add: two_row_prefs_def)
  have b: "''user_X'' \<noteq> ''user_A''" by simp
  have c: "''user_B'' \<in> set [''user_X'', ''user_B'']" by simp
  have d: "1 - real (first_index [''user_X'', ''user_B''] ''user_B'') / real (length [''user_X'', ''user_B'']) = 1 / 2"
    by (simp add: first_index_def)
  note r = absent_similar_users_skipped[of "''user_A''" two_row_prefs "[''user_X'', ''user_B'']" 1
        "''user_X''" "{}" "[''user_B'']" "[]" "''user_B''"]
  note skip = r[THEN conjunct2, THEN conjunct1, THEN mp, OF a]
  note same = r[THEN conjunct2, THEN conjunct2, THEN conjunct1, THEN mp, OF conjI[OF a b]]
  note w = r[THEN conjunct2, THEN conjunct2, THEN conjunct2, THEN mp, OF c, unfolded d]
  show ?thesis
    by (intro conjI) (rule a b same skip c w)+
qed

section \<open>Rounding\<close>

text \<open>The value of \<open>fl\<close> once the binade of its argument is known, and at the numbers
  used below.\<close>

lemma round_half_even_of_int: "round_half_even (of_int n) = n"
  by (simp add: round_half_even_def)

lemma round_half_even_tie: "round_half_even (of_int n + 1 / 2) = (if even n then n else n + 1)"
proof -
  have "\<lfloor>of_int n + (1 / 2 :: real)\<rfloor> = n" by linarith
  then show ?thesis by (simp add: round_half_even_def Let_def)
qed


lemma fl_zero: "fl 0 = 0"
  by (simp add: fl_def)

lemma fl_eval:
  assumes "x \<noteq> 0" and "2 powr (of_int k) \<le> \<bar>x\<bar>" and "\<bar>x\<bar> < 2 powr (of_int (k + 1))"
    and "e = max (k - 52) (- 1074)"
  shows "fl x = of_int (round_half_even (x / 2 powr (of_int e))) * 2 powr (of_int e)"
proof -
  have "\<lfloor>log 2 \<bar>x\<bar>\<rfloor> = k"
    using assms(1,2,3) floor_log_eq_powr_iff[of "\<bar>x\<bar>" 2 k] by simp
  then show ?thesis using assms(1,4) by (simp add: fl_def Let_def)
qed

lemma fl_one: "fl 1 = 1"
proof -
  have "fl 1 = of_int (round_half_even (1 / 2 powr (of_int (- 52)))) * 2 powr (of_int (- 52))"
    by (rule fl_eval[where k = 0]) simp_all
  also have "1 / 2 powr (of_int (- 52)) = (of_int (2 ^ 52) :: real)"
    by (simp add: powr_minus)
  finally show ?thesis
    by (simp only: round_half_even_of_int) (simp add: powr_minus)
qed

lemma fl_two_53: "fl 9007199254740992 = 9007199254740992"
proof -
  have "fl 9007199254740992
      = of_int (round_half_even (9007199254740992 / 2 powr (of_int 1))) * 2 powr (of_int 1)"
    by (rule fl_eval[where k = 53]) simp_all
  also have "9007199254740992 / 2 powr (of_int 1) = (of_int 4503599627370496 :: real)"
    by simp
  finally show ?thesis
    by (simp only: round_half_even_of_int) simp
qed

lemma fl_two_53_neg: "fl (- 9007199254740992) = - 9007199254740992"
proof -
  have "fl (- 9007199254740992)
      = of_int (round_half_even (- 9007199254740992 / 2 powr (of_int 1))) * 2 powr (of_int 1)"
    by (rule fl_eval[where k = 53]) simp_all
  also have "- 9007199254740992 / 2 powr (of_int 1) = (of_int (- 4503599627370496) :: real)"
    by simp
  finally show ?thesis
    by (simp only: round_half_even_of_int) simp
qed

lemma fl_two_53_plus_1: "fl 9007199254740993 = 9007199254740992"
proof -
  have "fl 9007199254740993
      = of_int (round_half_even (9007199254740993 / 2 powr (of_int 1))) * 2 powr (of_int 1)"
    by (rule fl_eval[where k = 53]) simp_all
  also have "9007199254740993 / 2 powr (of_int 1) = (of_int 4503599627370496 + 1 / 2 :: real)"
    by simp
  finally show ?thesis
    by (simp only: round_half_even_tie) simp
qed



section \<open>What the arithmetic changes in the aggregator\<close>

text \<open>With exact arithmetic the parametrised aggregator is the aggregator.\<close>

lemma update_stats_in_exact: "update_stats_in exact st x = update_stats st x"
  by (cases st) (simp add: update_stats_in_def update_stats_def exact_def Let_def)

lemma rate_in_exact: "rate_in exact u g x p = rate u g x p"
  by (simp add: rate_in_def rate_def update_stats_in_exact)

lemma process_users_in_exact: "process_users_in exact cols r g p = process_users cols r g p"
  by (induction cols arbitrary: p) (auto simp: rate_in_exact split: cell.splits sum.splits)

lemma process_row_in_exact: "process_row_in exact le cols r p = process_row le cols r p"
  by (simp add: process_row_in_def process_row_def process_users_in_exact
        split: cell.splits sum.splits)

lemma process_rows_in_exact: "process_rows_in exact le cols rs p = process_rows le cols rs p"
  by (induction rs arbitrary: p) (auto simp: process_row_in_exact split: sum.splits)

lemma calculate_genre_preferences_in_exact:
  "calculate_genre_preferences_in exact le df = calculate_genre_preferences le df"
  by (simp add: calculate_genre_preferences_in_def calculate_genre_preferences_def process_rows_in_exact)

text \<open>
  Erasing totals and averages commutes with every step, whatever the arithmetic: two
  runs over the same rows raise the same exception or reach dictionaries with the same
  keys and counts.
\<close>

lemma map_values_setitem: "map_values f (setitem k v d) = setitem k (f v) (map_values f d)"
  by (induction d) (auto simp: map_values_def)

lemma map_of_map_values: "map_of (map_values f d) k = map_option f (map_of d k)"
  by (induction d) (auto simp: map_values_def)

lemma map_values_Nil: "map_values f [] = []"
  by (simp add: map_values_def)

lemma rate_in_shape: "map_sum id count_shape (rate_in ar u g x p) = rate_shape u g (count_shape p)"
proof (cases "hashable g")
  case False
  then show ?thesis by (simp add: rate_in_def rate_shape_def)
next
  case True
  let ?c = "\<lambda>(tot :: real, avg :: real, cnt :: int). cnt"
  define up where "up = (case map_of p u of None \<Rightarrow> [] | Some up \<Rightarrow> up)"
  define st where "st = (case map_of up g of None \<Rightarrow> (0, 0, 0) | Some st \<Rightarrow> st)"
  have us: "(case map_of (count_shape p) u of None \<Rightarrow> [] | Some us \<Rightarrow> us) = map_values ?c up"
    by (simp add: count_shape_def map_of_map_values up_def map_values_Nil split: option.splits)
  have cn: "(case map_of (map_values ?c up) g of None \<Rightarrow> 0 | Some c \<Rightarrow> c) = ?c st"
    by (simp add: map_of_map_values st_def split: option.splits)
  obtain tot avg cnt where s: "st = (tot, avg, cnt)" by (cases st) auto
  show ?thesis
  proof (cases "cnt + 1 = 0")
    case z: True
    have "rate_in ar u g x p = Inl ZeroDivisionError"
      using True z s by (simp add: rate_in_def up_def[symmetric] st_def[symmetric] update_stats_in_def Let_def)
    moreover have "rate_shape u g (count_shape p) = Inl ZeroDivisionError"
      using True z s by (simp add: rate_shape_def us cn Let_def)
    ultimately show ?thesis by simp
  next
    case nz: False
    let ?st' = "(ar_add ar tot x, ar_div ar (ar_add ar tot x) (of_int (cnt + 1)), cnt + 1)"
    have "rate_in ar u g x p = Inr (setitem u (setitem g ?st' up) p)"
      using True nz s by (simp add: rate_in_def up_def[symmetric] st_def[symmetric] update_stats_in_def Let_def)
    moreover have "rate_shape u g (count_shape p) = Inr (setitem u (setitem g (cnt + 1) (map_values ?c up)) (count_shape p))"
      using True nz s by (simp add: rate_shape_def us cn Let_def)
    moreover have "count_shape (setitem u (setitem g ?st' up) p)
        = setitem u (setitem g (cnt + 1) (map_values ?c up)) (count_shape p)"
      by (simp add: count_shape_def map_values_setitem)
    ultimately show ?thesis by simp
  qed
qed

lemma process_users_in_shape:
  "count_shape p = count_shape q \<Longrightarrow>
     map_sum id count_shape (process_users_in ar cols r g p)
       = map_sum id count_shape (process_users_in ar' cols r g q)"
proof (induction cols arbitrary: p q)
  case Nil
  then show ?case by simp
next
  case (Cons c cs)
  show ?case
  proof (cases "r c")
    case (Str s)
    then show ?thesis by simp
  next
    case Missing
    then show ?thesis using Cons.IH[OF Cons.prems] by simp
  next
    case (Num x)
    have eq: "map_sum id count_shape (rate_in ar c g x p) = map_sum id count_shape (rate_in ar' c g x q)"
      by (simp add: rate_in_shape Cons.prems)
    show ?thesis
    proof (cases "rate_in ar c g x p")
      case (Inl e)
      then have "rate_in ar' c g x q = Inl e" using eq by (cases "rate_in ar' c g x q") auto
      then show ?thesis using Inl Num by simp
    next
      case (Inr p')
      then obtain q' where q': "rate_in ar' c g x q = Inr q'" "count_shape p' = count_shape q'"
        using eq by (cases "rate_in ar' c g x q") auto
      show ?thesis using Inr q'(1) Num Cons.IH[OF q'(2)] by simp
    qed
  qed
qed

lemma process_row_in_shape:
  "count_shape p = count_shape q \<Longrightarrow>
     map_sum id count_shape (process_row_in ar le cols r p)
       = map_sum id count_shape (process_row_in ar' le cols r q)"
  by (auto simp: process_row_in_def process_users_in_shape split: cell.splits sum.splits)

lemma process_rows_in_shape:
  "count_shape p = count_shape q \<Longrightarrow>
     map_sum id count_shape (process_rows_in ar le cols rs p)
       = map_sum id count_shape (process_rows_in ar' le cols rs q)"
proof (induction rs arbitrary: p q)
  case Nil
  then show ?case by simp
next
  case (Cons r rs)
  have eq: "map_sum id count_shape (process_row_in ar le cols r p)
          = map_sum id count_shape (process_row_in ar' le cols r q)"
    by (rule process_row_in_shape[OF Cons.prems])
  show ?case
  proof (cases "process_row_in ar le cols r p")
    case (Inl e)
    then have "process_row_in ar' le cols r q = Inl e"
      using eq by (cases "process_row_in ar' le cols r q") auto
    then show ?thesis using Inl by simp
  next
    case (Inr p')
    then obtain q' where q': "process_row_in ar' le cols r q = Inr q'" "count_shape p' = count_shape q'"
      using eq by (cases "process_row_in ar' le cols r q") auto
    show ?thesis using Inr q'(1) Cons.IH[OF q'(2)] by simp
  qed
qed

lemma calculate_in_shape:
  "map_sum id count_shape (calculate_genre_preferences_in ar le df)
     = map_sum id count_shape (calculate_genre_preferences le df)"
  unfolding calculate_genre_preferences_in_exact[symmetric] calculate_genre_preferences_in_def
  by (rule process_rows_in_shape) simp

lemma stored_count_shape:
  "stored_count p u g = (case map_of (count_shape p) u of None \<Rightarrow> None | Some s \<Rightarrow> map_of s g)"
  by (simp add: stored_count_def lookup_def count_shape_def map_of_map_values split: option.splits)

lemma stored_count_cong: "count_shape p = count_shape q \<Longrightarrow> stored_count p u g = stored_count q u g"
  by (simp add: stored_count_shape)

lemma stored_count_lookup: "lookup p u g = lookup q u g \<Longrightarrow> stored_count p u g = stored_count q u g"
  by (simp add: stored_count_def)

text \<open>
  In binary64 the stored total depends on the order of the rows: \<open>2 ^ 53 + 1\<close> rounds
  back to \<open>2 ^ 53\<close>, so adding 1 before \<open>- 2 ^ 53\<close> loses it and adding it last keeps
  it. The two tables have the same rows; one stores the total 0, the other 1.
\<close>

theorem float_sum_depends_on_order:
  "columns cancelling_table_permuted = columns cancelling_table
   \<and> mset (rows cancelling_table_permuted) = mset (rows cancelling_table)
   \<and> calculate_genre_preferences_in float64 sample_literal_eval cancelling_table
       = Inr [(''user_A'', [(PStr ''Rock'', (0, 0, 3))])]
   \<and> calculate_genre_preferences_in float64 sample_literal_eval cancelling_table_permuted
       = Inr [(''user_A'', [(PStr ''Rock'', (1, fl (1 / 3), 3))])]"
proof -
  have a: "calculate_genre_preferences_in float64 sample_literal_eval cancelling_table
       = Inr [(''user_A'', [(PStr ''Rock'', (0, 0, 3))])]"
    by (simp add: calculate_genre_preferences_in_def cancelling_table_def big_row_def one_row_def
        minus_big_row_def process_row_in_def effective_genre_def startswith_def endswith_def
        user_columns_def rate_in_def update_stats_in_def float64_def
        fl_zero fl_one fl_two_53 fl_two_53_plus_1)
  have b: "calculate_genre_preferences_in float64 sample_literal_eval cancelling_table_permuted
       = Inr [(''user_A'', [(PStr ''Rock'', (1, fl (1 / 3), 3))])]"
    by (simp add: calculate_genre_preferences_in_def cancelling_table_permuted_def big_row_def
        one_row_def minus_big_row_def process_row_in_def effective_genre_def startswith_def
        endswith_def user_columns_def rate_in_def update_stats_in_def float64_def
        fl_zero fl_one fl_two_53 fl_two_53_plus_1)
  have c: "mset (rows cancelling_table_permuted) = mset (rows cancelling_table)"
    by (simp add: cancelling_table_def cancelling_table_permuted_def)
  have d: "columns cancelling_table_permuted = columns cancelling_table"
    by (simp add: cancelling_table_def cancelling_table_permuted_def)
  show ?thesis using a b c d by simp
qed

text \<open>
  C3. Two tables with the same columns and the same rows in another order, in any
  arithmetic, binary64 included: if one run raises, so does the other; if not, both
  results have the same pairs of user and genre and store the same count for each. In
  exact arithmetic they also store the same total and average.
\<close>

theorem aggregator_order_counts:
  assumes "columns df' = columns df" and "mset (rows df') = mset (rows df)"
  shows "(case calculate_genre_preferences_in ar le df of
            Inl e \<Rightarrow> \<exists>e'. calculate_genre_preferences_in ar le df' = Inl e'
          | Inr p \<Rightarrow> \<exists>p'. calculate_genre_preferences_in ar le df' = Inr p' \<and>
                       (\<forall>user genre. stored_count p' user genre = stored_count p user genre))
       \<and> (case calculate_genre_preferences le df of
            Inl e \<Rightarrow> \<exists>e'. calculate_genre_preferences le df' = Inl e'
          | Inr p \<Rightarrow> \<exists>p'. calculate_genre_preferences le df' = Inr p' \<and>
                       (\<forall>user genre. lookup p' user genre = lookup p user genre))"
proof -
  note ex = order_insensitive_exact[OF assms, of le]
  have sh: "map_sum id count_shape (calculate_genre_preferences_in ar le df)
          = map_sum id count_shape (calculate_genre_preferences le df)"
    and sh': "map_sum id count_shape (calculate_genre_preferences_in ar le df')
          = map_sum id count_shape (calculate_genre_preferences le df')"
    by (rule calculate_in_shape)+
  have "case calculate_genre_preferences_in ar le df of
            Inl e \<Rightarrow> \<exists>e'. calculate_genre_preferences_in ar le df' = Inl e'
          | Inr p \<Rightarrow> \<exists>p'. calculate_genre_preferences_in ar le df' = Inr p' \<and>
                       (\<forall>user genre. stored_count p' user genre = stored_count p user genre)"
  proof (cases "calculate_genre_preferences_in ar le df")
    case (Inl e)
    then have "calculate_genre_preferences le df = Inl e"
      using sh by (cases "calculate_genre_preferences le df") auto
    then obtain e' where "calculate_genre_preferences le df' = Inl e'"
      using ex by auto
    then have "calculate_genre_preferences_in ar le df' = Inl e'"
      using sh' by (cases "calculate_genre_preferences_in ar le df'") auto
    then show ?thesis using Inl by simp
  next
    case (Inr p)
    then obtain pe where pe: "calculate_genre_preferences le df = Inr pe" "count_shape p = count_shape pe"
      using sh by (cases "calculate_genre_preferences le df") auto
    obtain pe' where pe': "calculate_genre_preferences le df' = Inr pe'"
      "\<And>u g. lookup pe' u g = lookup pe u g"
      using ex pe(1) by auto
    obtain p' where p': "calculate_genre_preferences_in ar le df' = Inr p'" "count_shape p' = count_shape pe'"
      using sh' pe'(1) by (cases "calculate_genre_preferences_in ar le df'") auto
    have "stored_count p' u g = stored_count p u g" for u g
      using stored_count_cong[OF p'(2), of u g] stored_count_lookup[OF pe'(2), of u g]
        stored_count_cong[OF pe(2), of u g] by simp
    then show ?thesis using Inr p'(1) by simp
  qed
  then show ?thesis using ex by simp
qed

theorem aggregator_order_counts_witness:
  "columns cancelling_table_permuted = columns cancelling_table
   \<and> mset (rows cancelling_table_permuted) = mset (rows cancelling_table)
   \<and> (\<exists>p'. calculate_genre_preferences_in float64 sample_literal_eval cancelling_table_permuted = Inr p'
          \<and> (\<forall>user genre. stored_count p' user genre
                = stored_count [(''user_A'', [(PStr ''Rock'', (0, 0, 3))])] user genre))"
proof -
  have a: "columns cancelling_table_permuted = columns cancelling_table"
    by (simp add: cancelling_table_def cancelling_table_permuted_def)
  have b: "mset (rows cancelling_table_permuted) = mset (rows cancelling_table)"
    by (simp add: cancelling_table_def cancelling_table_permuted_def)
  have c: "calculate_genre_preferences_in float64 sample_literal_eval cancelling_table
       = Inr [(''user_A'', [(PStr ''Rock'', (0, 0, 3))])]"
    by (simp add: calculate_genre_preferences_in_def cancelling_table_def big_row_def one_row_def
        minus_big_row_def process_row_in_def effective_genre_def startswith_def endswith_def
        user_columns_def rate_in_def update_stats_in_def float64_def
        fl_zero fl_one fl_two_53 fl_two_53_plus_1)
  note r = aggregator_order_counts[OF a b, of float64 sample_literal_eval, THEN conjunct1, unfolded c]
  show ?thesis
    using a b r by simp
qed

section \<open>What the arithmetic changes in the ranker\<close>





















end
